theory Spec2Isabelle
  imports Main
begin

section \<open>Data model\<close>

text \<open>
  An annotated token as the analysis functions read it: the surface form (\<open>t.text\<close>),
  the lemma (\<open>t.lemma_\<close>), the coarse part-of-speech tag (\<open>t.pos_\<close>) and the two
  flags \<open>t.is_alpha\<close> and \<open>t.is_stop\<close>. The annotator that produces the tokens is an
  external library; a document is the list of its tokens, in source order.
\<close>

record token =
  tok_text :: string
  tok_lemma :: string
  tok_pos :: string
  is_alpha :: bool
  is_stop :: bool

text \<open>
  \<open>str.lower()\<close>. A string is a list of characters, one \<open>char\<close> for each character
  of the Python string, the 256 values of \<open>char\<close> standing for the code points
  U+0000 to U+00FF. On these, \<open>lower\<close> moves the capital letters to the small letters 32
  code points above: \<open>A\<close> to \<open>Z\<close>, and the accented capitals U+00C0 to U+00DE but for
  the multiplication sign U+00D7. Every other character stays.
\<close>

definition lower_char :: "char \<Rightarrow> char" where
  "lower_char c =
     (let n = (of_char c :: nat)
      in if (65 \<le> n \<and> n \<le> 90) \<or> (192 \<le> n \<and> n \<le> 222 \<and> n \<noteq> 215)
         then char_of (n + 32) else c)"

definition lower :: "string \<Rightarrow> string" where
  "lower s = map lower_char s"

subsection \<open>Python sequences\<close>

datatype py_error = IndexError

text \<open>
  \<open>xs[i]\<close> raises when \<open>i\<close> is outside \<open>-len(xs) .. len(xs)-1\<close>; below zero it reads
  from the end of the list.
\<close>

definition py_index :: "'a list \<Rightarrow> int \<Rightarrow> py_error + 'a" where
  "py_index xs i =
     (if 0 \<le> i \<and> i < int (length xs) then Inr (xs ! nat i)
      else if i < 0 \<and> - int (length xs) \<le> i then Inr (xs ! nat (int (length xs) + i))
      else Inl IndexError)"

text \<open>
  A bound of the slice \<open>xs[a:b]\<close> on a sequence of length \<open>n\<close>: a negative bound counts
  from the end, and the result is clipped to \<open>0..n\<close>. A slice never raises.
\<close>

definition slice_bound :: "nat \<Rightarrow> int \<Rightarrow> nat" where
  "slice_bound n i = (if i < 0 then nat (max 0 (int n + i)) else min (nat i) n)"

definition py_slice :: "'a list \<Rightarrow> int \<Rightarrow> int \<Rightarrow> 'a list" where
  "py_slice xs a b =
     (let lo = slice_bound (length xs) a; hi = slice_bound (length xs) b
      in take (hi - lo) (drop lo xs))"

text \<open>\<open>sep.join(parts)\<close>.\<close>

fun join :: "string \<Rightarrow> string list \<Rightarrow> string" where
  "join sep [] = []"
| "join sep [x] = x"
| "join sep (x # y # ys) = x @ sep @ join sep (y # ys)"

section \<open>The KWIC helper (SFLizer\_1\_04.py)\<close>

text \<open>One row of the concordance table: the dictionary appended to \<open>rows\<close>.\<close>

record kwic_row =
  Left :: string
  Keyword :: string
  Right :: string

text \<open>
  \<open>hits = [i for i,t in enumerate(tokens)
            if t.lemma_.lower()==lemma.lower() and t.pos_==pos_tag]\<close>
\<close>

definition hits :: "token list \<Rightarrow> string \<Rightarrow> string \<Rightarrow> nat list" where
  "hits tokens lemma pos_tag =
     map fst (filter (\<lambda>(i, t). lower (tok_lemma t) = lower lemma \<and> tok_pos t = pos_tag)
                     (enumerate 0 tokens))"

text \<open>
  The two context slices of a hit at position \<open>i\<close>: \<open>tokens[max(0,i-window):i]\<close> and
  \<open>tokens[i+1:i+1+window]\<close>.
\<close>

definition left_tokens :: "token list \<Rightarrow> int \<Rightarrow> nat \<Rightarrow> token list" where
  "left_tokens tokens window i = py_slice tokens (max 0 (int i - window)) (int i)"

definition right_tokens :: "token list \<Rightarrow> int \<Rightarrow> nat \<Rightarrow> token list" where
  "right_tokens tokens window i = py_slice tokens (int i + 1) (int i + 1 + window)"

text \<open>
  The body of the loop over \<open>hits[:max_rows]\<close>. The contexts are the texts of the two
  slices joined by single spaces; the keyword is \<open>tokens[i].text\<close>, the one indexing of
  the function, which raises out of range.
\<close>

fun kwic_loop :: "token list \<Rightarrow> int \<Rightarrow> nat list \<Rightarrow> py_error + kwic_row list" where
  "kwic_loop tokens window [] = Inr []"
| "kwic_loop tokens window (i # rest) =
     (let left = join '' '' (map tok_text (left_tokens tokens window i))
      in case py_index tokens (int i) of
           Inl e \<Rightarrow> Inl e
         | Inr t \<Rightarrow>
             (let kw = tok_text t;
                  right = join '' '' (map tok_text (right_tokens tokens window i))
              in case kwic_loop tokens window rest of
                   Inl e \<Rightarrow> Inl e
                 | Inr rows \<Rightarrow> Inr (\<lparr>Left = left, Keyword = kw, Right = right\<rparr> # rows)))"

text \<open>
  \<open>kwic(doc, lemma, pos_tag, window=5, max_rows=50)\<close>. The result is the list of rows
  handed to the data frame, in the order they were appended; \<open>hits[:max_rows]\<close> is the
  slice from the start of \<open>hits\<close>.
\<close>

definition kwic :: "token list \<Rightarrow> string \<Rightarrow> string \<Rightarrow> int \<Rightarrow> int \<Rightarrow> py_error + kwic_row list" where
  "kwic doc lemma pos_tag window max_rows =
     (let tokens = doc; hs = hits tokens lemma pos_tag
      in kwic_loop tokens window (py_slice hs 0 max_rows))"

section \<open>The frequency aggregator (SFLizer\_1\_04.py)\<close>

text \<open>
  The loop of \<open>analyze_pos\<close> that fills \<open>items\<close>: a token is kept when its tag is the
  target tag and it is alphabetic; a stop word is skipped when \<open>remove_stop\<close> is set;
  the lemma is lower-cased and kept when it has at least \<open>min_len\<close> characters.
\<close>

fun collect_items :: "token list \<Rightarrow> string \<Rightarrow> int \<Rightarrow> bool \<Rightarrow> string list" where
  "collect_items [] pos_tag min_len remove_stop = []"
| "collect_items (t # ts) pos_tag min_len remove_stop =
     (if tok_pos t = pos_tag \<and> is_alpha t then
        (if remove_stop \<and> is_stop t then collect_items ts pos_tag min_len remove_stop
         else (let lemma = lower (tok_lemma t)
               in if int (length lemma) \<ge> min_len
                  then lemma # collect_items ts pos_tag min_len remove_stop
                  else collect_items ts pos_tag min_len remove_stop))
      else collect_items ts pos_tag min_len remove_stop)"

text \<open>
  \<open>Counter(items)\<close>: a dictionary from element to count. A Python dictionary keeps its
  keys in insertion order, so the counter is an association list in which a new key goes
  to the end and a known key has its count raised in place.
\<close>

fun counter_add :: "('a \<times> int) list \<Rightarrow> 'a \<Rightarrow> ('a \<times> int) list" where
  "counter_add [] x = [(x, 1)]"
| "counter_add ((k, c) # kcs) x =
     (if k = x then (k, c + 1) # kcs else (k, c) # counter_add kcs x)"

definition Counter :: "'a list \<Rightarrow> ('a \<times> int) list" where
  "Counter items = foldl counter_add [] items"

text \<open>
  \<open>counter.most_common()\<close> sorts the items by count, largest first, with Python's
  stable sort: items of equal count keep the order of the counter. \<open>sort_key\<close> is a
  stable insertion sort, here on the negated count.
\<close>

definition most_common :: "('a \<times> int) list \<Rightarrow> ('a \<times> int) list" where
  "most_common counter = sort_key (\<lambda>kc. - snd kc) counter"

text \<open>
  \<open>analyze_pos(doc, pos_tag, label, min_len=2, remove_stop=True)\<close>. The result is the
  list of rows (lemma, frequency) of the data frame; \<open>label\<close> only names its first
  column.
\<close>

definition analyze_pos :: "token list \<Rightarrow> string \<Rightarrow> string \<Rightarrow> int \<Rightarrow> bool \<Rightarrow> (string \<times> int) list" where
  "analyze_pos doc pos_tag label min_len remove_stop =
     (let items = collect_items doc pos_tag min_len remove_stop;
          counter = Counter items
      in most_common counter)"

section \<open>The process classifier (streamlit\_app.py)\<close>

text \<open>The dictionary \<open>sfl_map\<close>, entry by entry; no key occurs twice.\<close>

definition sfl_map :: "(string \<times> string) list" where
  "sfl_map =
    [(''do'', ''Material''), (''make'', ''Material''), (''build'', ''Material''),
     (''create'', ''Material''), (''use'', ''Material''), (''support'', ''Material''),
     (''develop'', ''Material''), (''increase'', ''Material''), (''reduce'', ''Material''),
     (''reach'', ''Material''), (''grow'', ''Material''), (''provide'', ''Material''),
     (''help'', ''Material''), (''deliver'', ''Material''), (''implement'', ''Material''),
     (''manage'', ''Material''), (''improve'', ''Material''), (''enhance'', ''Material''),
     (''construct'', ''Material''), (''invest'', ''Material''),
     (''know'', ''Mental''), (''see'', ''Mental''), (''think'', ''Mental''),
     (''expect'', ''Mental''), (''believe'', ''Mental''), (''feel'', ''Mental''),
     (''understand'', ''Mental''), (''assume'', ''Mental''), (''consider'', ''Mental''),
     (''perceive'', ''Mental''), (''realize'', ''Mental''),
     (''be'', ''Relational''), (''have'', ''Relational''), (''include'', ''Relational''),
     (''remain'', ''Relational''), (''consist'', ''Relational''),
     (''represent'', ''Relational''), (''mean'', ''Relational''), (''equal'', ''Relational''),
     (''say'', ''Verbal''), (''report'', ''Verbal''), (''suggest'', ''Verbal''),
     (''claim'', ''Verbal''), (''explain'', ''Verbal''), (''mention'', ''Verbal''),
     (''highlight'', ''Verbal''), (''state'', ''Verbal''), (''assert'', ''Verbal''),
     (''communicate'', ''Verbal''),
     (''watch'', ''Behavioral''), (''listen'', ''Behavioral''), (''smile'', ''Behavioral''),
     (''cry'', ''Behavioral''), (''breathe'', ''Behavioral''), (''stare'', ''Behavioral''),
     (''look'', ''Behavioral''), (''laugh'', ''Behavioral''), (''observe'', ''Behavioral''),
     (''shrug'', ''Behavioral''),
     (''exist'', ''Existential''), (''arise'', ''Existential''), (''appear'', ''Existential''),
     (''emerge'', ''Existential''), (''occur'', ''Existential''), (''happen'', ''Existential''),
     (''prevail'', ''Existential'')]"

text \<open>\<open>sfl_map.get(lemma, "Material")\<close>: the lookup with its default.\<close>

definition sfl_get :: "string \<Rightarrow> string" where
  "sfl_get lemma = (case map_of sfl_map lemma of None \<Rightarrow> ''Material'' | Some p \<Rightarrow> p)"

text \<open>One row of the table of \<open>analyze_text\<close>.\<close>

record sfl_row =
  Verb :: string
  Frequency :: int
  SFL_Process :: string

text \<open>
  \<open>analyze_text\<close> from the annotated document to \<open>rows\<close>: the verbs and auxiliaries
  that are alphabetic, as pairs of lower-cased text and lower-cased lemma; the counter
  of their lemmas; one row per lemma of the counter, in the counter's order, with the
  lemma's process looked up in \<open>sfl_map\<close>.
\<close>

definition verbs :: "token list \<Rightarrow> (string \<times> string) list" where
  "verbs doc =
     map (\<lambda>t. (lower (tok_text t), lower (tok_lemma t)))
         (filter (\<lambda>t. tok_pos t \<in> set [''VERB'', ''AUX''] \<and> is_alpha t) doc)"

definition analyze_text_rows :: "token list \<Rightarrow> sfl_row list" where
  "analyze_text_rows doc =
     (let lemma_freq = Counter (map snd (verbs doc))
      in map (\<lambda>(lemma, freq).
                \<lparr>Verb = lemma, Frequency = freq, SFL_Process = sfl_get lemma\<rparr>)
             lemma_freq)"



section \<open>Notions of the specification\<close>

text \<open>A token matches the request: its lemma, compared without case, and its tag.\<close>

definition is_hit :: "string \<Rightarrow> string \<Rightarrow> token \<Rightarrow> bool" where
  "is_hit lemma pos_tag t \<longleftrightarrow> lower (tok_lemma t) = lower lemma \<and> tok_pos t = pos_tag"

text \<open>The concordance row of the match at position \<open>i\<close>.\<close>

definition kwic_row_at :: "token list \<Rightarrow> int \<Rightarrow> nat \<Rightarrow> kwic_row" where
  "kwic_row_at tokens window i =
     \<lparr>Left = join '' '' (map tok_text (left_tokens tokens window i)),
      Keyword = tok_text (tokens ! i),
      Right = join '' '' (map tok_text (right_tokens tokens window i))\<rparr>"

text \<open>
  The tag, alphabetic and stop-word filters of the frequency aggregator, and the
  tokens that qualify: those that pass the filters and whose lower-cased lemma has the
  minimum length.
\<close>

definition passes_filters :: "string \<Rightarrow> bool \<Rightarrow> token \<Rightarrow> bool" where
  "passes_filters pos_tag remove_stop t \<longleftrightarrow>
     tok_pos t = pos_tag \<and> is_alpha t \<and> \<not> (remove_stop \<and> is_stop t)"

definition qualifies :: "string \<Rightarrow> int \<Rightarrow> bool \<Rightarrow> token \<Rightarrow> bool" where
  "qualifies pos_tag min_len remove_stop t \<longleftrightarrow>
     passes_filters pos_tag remove_stop t \<and> min_len \<le> int (length (lower (tok_lemma t)))"

text \<open>The distinct elements of a list, in the order in which they are first met.\<close>

fun first_seen :: "'a list \<Rightarrow> 'a list" where
  "first_seen [] = []"
| "first_seen (x # xs) = x # filter (\<lambda>y. y \<noteq> x) (first_seen xs)"

text \<open>The count a counter holds for a key, zero for a key it does not have.\<close>

definition count_of :: "('a \<times> int) list \<Rightarrow> 'a \<Rightarrow> int" where
  "count_of kcs k = (case map_of kcs k of None \<Rightarrow> 0 | Some c \<Rightarrow> c)"

text \<open>The six process categories.\<close>

definition categories :: "string list" where
  "categories =
     [''Material'', ''Mental'', ''Relational'', ''Verbal'', ''Behavioral'', ''Existential'']"

text \<open>
  The process \<open>analyze_text\<close> gives the lemma of a token: the lemma is lower-cased
  where the verbs are collected, and the lower-cased lemma is looked up in the table.
\<close>

definition classify :: "string \<Rightarrow> string" where
  "classify lemma = sfl_get (lower lemma)"

text \<open>
  The specification's sample sentence, with the annotation an English tagger gives it.
\<close>

definition example_doc :: "token list" where
  "example_doc =
     [\<lparr>tok_text = ''The'', tok_lemma = ''the'', tok_pos = ''DET'', is_alpha = True, is_stop = True\<rparr>,
      \<lparr>tok_text = ''cat'', tok_lemma = ''cat'', tok_pos = ''NOUN'', is_alpha = True, is_stop = False\<rparr>,
      \<lparr>tok_text = ''runs'', tok_lemma = ''run'', tok_pos = ''VERB'', is_alpha = True, is_stop = False\<rparr>,
      \<lparr>tok_text = ''fast'', tok_lemma = ''fast'', tok_pos = ''ADV'', is_alpha = True, is_stop = False\<rparr>,
      \<lparr>tok_text = ''now'', tok_lemma = ''now'', tok_pos = ''ADV'', is_alpha = True, is_stop = True\<rparr>]"



section \<open>Lemmas on the sequence operations\<close>

lemma enumerate_filter_fst:
  "map fst (filter (\<lambda>(i, t). P t) (enumerate n xs)) =
     filter (\<lambda>i. P (xs ! (i - n))) [n..<n + length xs]"
proof (induction xs arbitrary: n)
  case Nil
  then show ?case by simp
next
  case (Cons x xs)
  have "filter (\<lambda>i. P ((x # xs) ! (i - n))) [Suc n..<Suc n + length xs]
      = filter (\<lambda>i. P (xs ! (i - Suc n))) [Suc n..<Suc n + length xs]"
    by (rule filter_cong) (auto simp: nth_Cons')
  then show ?case using Cons.IH [of "Suc n"]
    by (simp add: upt_conv_Cons del: upt_Suc)
qed

lemma enumerate_filter_snd:
  "map snd (filter (\<lambda>(i, t). P t) (enumerate n xs)) = filter P xs"
  by (induction xs arbitrary: n) auto

lemma py_slice_prefix: "py_slice xs 0 m = take (slice_bound (length xs) m) xs"
  by (simp add: py_slice_def slice_bound_def)

lemma py_slice_take: "0 \<le> m \<Longrightarrow> py_slice xs 0 m = take (nat m) xs"
  by (simp add: py_slice_prefix slice_bound_def min_def)

lemma take_drop_nth:
  "hi \<le> length xs \<Longrightarrow> take (hi - lo) (drop lo xs) = map ((!) xs) [lo..<hi]"
  by (rule nth_equalityI) auto

lemma py_index_in_range: "i < length xs \<Longrightarrow> py_index xs (int i) = Inr (xs ! i)"
  by (simp add: py_index_def)

section \<open>Lemmas on the KWIC helper\<close>

lemma hits_eq:
  "hits tokens lemma pos_tag =
     filter (\<lambda>i. is_hit lemma pos_tag (tokens ! i)) [0..<length tokens]"
  using enumerate_filter_fst [of "is_hit lemma pos_tag" 0 tokens]
  by (simp add: hits_def is_hit_def)

lemma length_hits:
  "length (hits tokens lemma pos_tag) = length (filter (is_hit lemma pos_tag) tokens)"
proof -
  have "length (hits tokens lemma pos_tag) =
        length (map snd (filter (\<lambda>(i, t). is_hit lemma pos_tag t) (enumerate 0 tokens)))"
    by (simp add: hits_def is_hit_def)
  then show ?thesis by (simp only: enumerate_filter_snd)
qed

lemma hits_in_range: "i \<in> set (hits tokens lemma pos_tag) \<Longrightarrow> i < length tokens"
  by (simp add: hits_eq)

lemma kwic_loop_rows:
  "\<forall>i\<in>set is. i < length tokens \<Longrightarrow>
   kwic_loop tokens window is = Inr (map (kwic_row_at tokens window) is)"
  by (induction "is") (simp_all add: py_index_in_range kwic_row_at_def)

lemma kwic_rows:
  "kwic doc lemma pos_tag window max_rows =
     Inr (map (kwic_row_at doc window) (py_slice (hits doc lemma pos_tag) 0 max_rows))"
proof -
  have "\<forall>i\<in>set (py_slice (hits doc lemma pos_tag) 0 max_rows). i < length doc"
    by (auto simp: py_slice_prefix dest: in_set_takeD hits_in_range)
  then show ?thesis by (simp add: kwic_def kwic_loop_rows)
qed

lemma left_tokens_span:
  "i < length tokens \<Longrightarrow>
   left_tokens tokens window i =
     map ((!) tokens) [slice_bound (length tokens) (max 0 (int i - window))..<i]"
  by (simp add: left_tokens_def py_slice_def take_drop_nth slice_bound_def)

lemma right_tokens_span:
  "i < length tokens \<Longrightarrow>
   right_tokens tokens window i =
     map ((!) tokens) [Suc i..<slice_bound (length tokens) (int i + 1 + window)]"
proof -
  assume "i < length tokens"
  then have "slice_bound (length tokens) (int i + 1) = Suc i"
    by (simp add: slice_bound_def)
  moreover have "slice_bound (length tokens) (int i + 1 + window) \<le> length tokens"
    by (auto simp: slice_bound_def)
  ultimately show ?thesis
    by (simp add: right_tokens_def py_slice_def take_drop_nth)
qed

lemma left_bound_window:
  "0 \<le> window \<Longrightarrow> i < n \<Longrightarrow>
   slice_bound n (max 0 (int i - window)) = i - min (nat window) i"
  by (auto simp: slice_bound_def)

lemma right_bound_window:
  "0 \<le> window \<Longrightarrow> i < n \<Longrightarrow>
   slice_bound n (int i + 1 + window) = Suc i + min (nat window) (n - 1 - i)"
  by (auto simp: slice_bound_def)

section \<open>Lemmas on the frequency aggregator\<close>

lemma collect_items_eq:
  "collect_items doc pos_tag min_len remove_stop =
     map (\<lambda>t. lower (tok_lemma t)) (filter (qualifies pos_tag min_len remove_stop) doc)"
  by (induction doc) (auto simp: qualifies_def passes_filters_def Let_def)

lemma set_first_seen: "set (first_seen xs) = set xs"
  by (induction xs) auto

lemma distinct_first_seen: "distinct (first_seen xs)"
  by (induction xs) (auto simp: set_first_seen)

lemma sum_counter_add: "sum_list (map snd (counter_add kcs x)) = sum_list (map snd kcs) + 1"
  by (induction kcs x rule: counter_add.induct) auto

lemma sum_foldl_counter_add:
  "sum_list (map snd (foldl counter_add acc items)) =
     sum_list (map snd acc) + int (length items)"
  by (induction items arbitrary: acc) (auto simp: sum_counter_add)

lemma keys_counter_add:
  "map fst (counter_add kcs x) =
     (if x \<in> fst ` set kcs then map fst kcs else map fst kcs @ [x])"
  by (induction kcs x rule: counter_add.induct) auto

lemma keys_foldl_counter_add:
  "map fst (foldl counter_add acc items) =
     map fst acc @ filter (\<lambda>x. x \<notin> fst ` set acc) (first_seen items)"
proof (induction items arbitrary: acc)
  case Nil
  then show ?case by simp
next
  case (Cons x xs)
  show ?case
  proof (cases "x \<in> fst ` set acc")
    case True
    then have "map fst (counter_add acc x) = map fst acc"
      by (simp add: keys_counter_add)
    then have s: "fst ` set (counter_add acc x) = fst ` set acc"
      by (metis list.set_map)
    have "filter (\<lambda>y. y \<notin> fst ` set acc) (filter (\<lambda>y. y \<noteq> x) (first_seen xs))
        = filter (\<lambda>y. y \<notin> fst ` set acc) (first_seen xs)"
      using True by (auto intro: filter_cong)
    then show ?thesis using True Cons.IH [of "counter_add acc x"] s
      by (simp add: keys_counter_add)
  next
    case False
    then have k: "map fst (counter_add acc x) = map fst acc @ [x]"
      by (simp add: keys_counter_add)
    have "set (map fst (counter_add acc x)) = set (map fst acc @ [x])"
      by (simp only: k)
    then have s: "fst ` set (counter_add acc x) = insert x (fst ` set acc)"
      by simp
    have "filter (\<lambda>y. y \<notin> insert x (fst ` set acc)) (first_seen xs)
        = filter (\<lambda>y. y \<notin> fst ` set acc) (filter (\<lambda>y. y \<noteq> x) (first_seen xs))"
      by (auto intro: filter_cong)
    then show ?thesis using False Cons.IH [of "counter_add acc x"] s k
      by simp
  qed
qed

lemma keys_Counter: "map fst (Counter items) = first_seen items"
  by (simp add: Counter_def keys_foldl_counter_add)

lemma count_of_counter_add:
  "count_of (counter_add kcs x) k = count_of kcs k + (if k = x then 1 else 0)"
  by (induction kcs x rule: counter_add.induct) (auto simp: count_of_def)

lemma count_of_foldl:
  "count_of (foldl counter_add acc items) k = count_of acc k + int (count_list items k)"
  by (induction items arbitrary: acc) (auto simp: count_of_counter_add)

lemma count_of_Counter: "count_of (Counter items) k = int (count_list items k)"
proof -
  have "count_of [] k = 0" by (simp add: count_of_def)
  then show ?thesis by (simp add: Counter_def count_of_foldl)
qed

lemma Counter_entry:
  assumes "(k, c) \<in> set (Counter items)"
  shows "c = int (count_list items k)" and "k \<in> set items"
proof -
  have d: "distinct (map fst (Counter items))"
    by (simp add: keys_Counter distinct_first_seen)
  with assms have "map_of (Counter items) k = Some c" by simp
  then have "count_of (Counter items) k = c" by (simp add: count_of_def)
  then show "c = int (count_list items k)" by (simp add: count_of_Counter)
  from assms have "k \<in> set (map fst (Counter items))" by force
  then show "k \<in> set items" by (simp add: keys_Counter set_first_seen)
qed

lemma sum_insort_key:
  "sum_list (map g (insort_key f x xs)) = (g x :: int) + sum_list (map g xs)"
  by (induction xs) auto

lemma sum_sort_key: "sum_list (map g (sort_key f xs)) = sum_list (map (g :: 'a \<Rightarrow> int) xs)"
  by (induction xs) (auto simp: sum_insort_key)

lemma sum_most_common: "sum_list (map snd (most_common kcs)) = sum_list (map snd kcs)"
  by (simp add: most_common_def sum_sort_key)

lemma set_most_common: "set (most_common kcs) = set kcs"
  by (simp add: most_common_def)




lemma collect_items_passing:
  "collect_items (filter (passes_filters pos_tag remove_stop) doc) pos_tag min_len remove_stop =
     collect_items doc pos_tag min_len remove_stop"
proof -
  have "filter (qualifies pos_tag min_len remove_stop)
          (filter (passes_filters pos_tag remove_stop) doc)
      = filter (qualifies pos_tag min_len remove_stop) doc"
    by (auto simp: qualifies_def intro: filter_cong)
  then show ?thesis by (simp only: collect_items_eq)
qed

lemma count_list_map_filter:
  "count_list (map f (filter P xs)) y = length (filter (\<lambda>x. P x \<and> f x = y) xs)"
  by (induction xs) auto

section \<open>Lemmas on the sort of the data frame\<close>





section \<open>Lemmas on the process classifier\<close>

lemma lower_char_idem: "lower_char (lower_char c) = lower_char c"
  by (simp add: lower_char_def Let_def)

lemma lower_idem: "lower (lower s) = lower s"
  by (simp add: lower_def lower_char_idem)

lemma lower_run: "lower ''run'' = ''run''"
  by code_simp

lemma sfl_map_keys_distinct: "distinct (map fst sfl_map)"
  by code_simp

lemma sfl_map_values: "list_all (\<lambda>kv. snd kv \<in> set categories) sfl_map"
  by code_simp

lemma sfl_get_in_categories: "sfl_get l \<in> set categories"
proof (cases "map_of sfl_map l")
  case None
  then show ?thesis by (simp add: sfl_get_def categories_def)
next
  case (Some p)
  then have "(l, p) \<in> set sfl_map" by (rule map_of_SomeD)
  then have "p \<in> set categories"
    using sfl_map_values by (auto simp: list_all_iff)
  with Some show ?thesis by (simp add: sfl_get_def)
qed

lemma sfl_get_key: "(k, p) \<in> set sfl_map \<Longrightarrow> sfl_get k = p"
  using sfl_map_keys_distinct by (simp add: sfl_get_def)

lemma sfl_get_absent: "k \<notin> fst ` set sfl_map \<Longrightarrow> sfl_get k = ''Material''"
proof -
  assume "k \<notin> fst ` set sfl_map"
  then have "map_of sfl_map k = None" by (simp add: map_of_eq_None_iff)
  then show ?thesis by (simp add: sfl_get_def)
qed

section \<open>The concordance example\<close>

text \<open>
  Claim C1, as amended. Over the five tokens The, cat, runs, fast, now, of which only
  \<open>runs\<close> has the lemma \<open>run\<close> with the tag \<open>VERB\<close>, the KWIC helper called for the
  lemma \<open>run\<close> with a window of 2 (and the default cap of 50 rows) returns exactly one
  row: the left context is \<open>The cat\<close> (both tokens before the match, not \<open>cat\<close> alone),
  the keyword is \<open>runs\<close>, the right context is \<open>fast now\<close>.
\<close>

theorem kwic_example:
  assumes "tok_text t0 = ''The''" "tok_text t1 = ''cat''" "tok_text t2 = ''runs''"
    "tok_text t3 = ''fast''" "tok_text t4 = ''now''"
    and "tok_lemma t2 = ''run''" "tok_pos t2 = ''VERB''"
    and "\<not> is_hit ''run'' ''VERB'' t0" "\<not> is_hit ''run'' ''VERB'' t1"
      "\<not> is_hit ''run'' ''VERB'' t3" "\<not> is_hit ''run'' ''VERB'' t4"
  shows "kwic [t0, t1, t2, t3, t4] ''run'' ''VERB'' 2 50 =
           Inr [\<lparr>Left = ''The cat'', Keyword = ''runs'', Right = ''fast now''\<rparr>]"
proof -
  have h2: "is_hit ''run'' ''VERB'' t2"
    using assms by (simp add: is_hit_def lower_run)
  have "hits [t0, t1, t2, t3, t4] ''run'' ''VERB'' = [2]"
    using assms h2 by (simp add: hits_eq upt_rec nth_Cons')
  then show ?thesis using assms
    by (simp add: kwic_rows py_slice_take kwic_row_at_def left_tokens_def right_tokens_def
        py_slice_def slice_bound_def)
qed

theorem kwic_example_witness:
  "kwic example_doc ''run'' ''VERB'' 2 50 =
     Inr [\<lparr>Left = ''The cat'', Keyword = ''runs'', Right = ''fast now''\<rparr>]"
  using kwic_example [of "example_doc ! 0" "example_doc ! 1" "example_doc ! 2"
      "example_doc ! 3" "example_doc ! 4"]
  by (simp add: example_doc_def is_hit_def lower_run)

text \<open>
  Claim C1 as the specification states it, with the left context \<open>cat\<close>, fails on the
  sample sentence.
\<close>

theorem kwic_example_left_context_not_cat:
  "kwic example_doc ''run'' ''VERB'' 2 50 \<noteq>
     Inr [\<lparr>Left = ''cat'', Keyword = ''runs'', Right = ''fast now''\<rparr>]"
  by code_simp

section \<open>The frequency table\<close>

text \<open>
  Claim C2. For every document, target tag, minimum lemma length and stop-word flag,
  the counts of the table returned by \<open>analyze_pos\<close> sum to the number of tokens that
  pass the tag, alphabetic, stop-word and minimum-length filters; every count is a
  positive integer.
\<close>

theorem analyze_pos_counts_sum:
  "sum_list (map snd (analyze_pos doc pos_tag label min_len remove_stop)) =
     int (length (filter (qualifies pos_tag min_len remove_stop) doc)) \<and>
   list_all (\<lambda>p. 0 < snd p) (analyze_pos doc pos_tag label min_len remove_stop)"
proof -
  let ?items = "collect_items doc pos_tag min_len remove_stop"
  have "sum_list (map snd (analyze_pos doc pos_tag label min_len remove_stop)) =
        int (length ?items)"
    by (simp add: analyze_pos_def sum_most_common Counter_def sum_foldl_counter_add)
  moreover have "0 < snd p" if "p \<in> set (Counter ?items)" for p
  proof -
    from that have e: "(fst p, snd p) \<in> set (Counter ?items)" by simp
    have "snd p = int (count_list ?items (fst p))" "fst p \<in> set ?items"
      using Counter_entry [OF e] by simp_all
    then show ?thesis using count_list_0_iff [of ?items "fst p"] by auto
  qed
  ultimately show ?thesis
    by (simp add: collect_items_eq analyze_pos_def list_all_iff set_most_common)
qed




text \<open>
  Claim C5. Every lemma of the table returned by \<open>analyze_pos\<close> is the lower-cased
  lemma of a token of the document that has the target tag, is alphabetic and, when
  stop words are removed, is no stop word; its count is the number of qualifying tokens
  with that lemma. Tokens that fail one of the three filters add nothing: the table of
  the document is the table of its tokens that pass them.
\<close>

theorem analyze_pos_filters:
  "analyze_pos (filter (passes_filters pos_tag remove_stop) doc) pos_tag label min_len
       remove_stop =
     analyze_pos doc pos_tag label min_len remove_stop \<and>
   (\<forall>(l, c)\<in>set (analyze_pos doc pos_tag label min_len remove_stop).
      (\<exists>t\<in>set doc. lower (tok_lemma t) = l \<and> tok_pos t = pos_tag \<and> is_alpha t \<and>
          \<not> (remove_stop \<and> is_stop t)) \<and>
      c = int (length (filter (\<lambda>t. qualifies pos_tag min_len remove_stop t \<and>
                                     lower (tok_lemma t) = l) doc)))"
proof -
  let ?items = "collect_items doc pos_tag min_len remove_stop"
  have a: "analyze_pos (filter (passes_filters pos_tag remove_stop) doc) pos_tag label
             min_len remove_stop =
           analyze_pos doc pos_tag label min_len remove_stop"
    by (simp add: analyze_pos_def collect_items_passing)
  have b: "(\<exists>t\<in>set doc. lower (tok_lemma t) = l \<and> tok_pos t = pos_tag \<and> is_alpha t \<and>
          \<not> (remove_stop \<and> is_stop t)) \<and>
      c = int (length (filter (\<lambda>t. qualifies pos_tag min_len remove_stop t \<and>
                                     lower (tok_lemma t) = l) doc))"
    if "(l, c) \<in> set (analyze_pos doc pos_tag label min_len remove_stop)" for l c
  proof -
    from that have e: "(l, c) \<in> set (Counter ?items)"
      by (simp add: analyze_pos_def set_most_common)
    have "l \<in> set ?items" using Counter_entry(2) [OF e] .
    then have "\<exists>t\<in>set doc. lower (tok_lemma t) = l \<and>
                 qualifies pos_tag min_len remove_stop t"
      by (auto simp: collect_items_eq)
    moreover have "c = int (count_list ?items l)" using Counter_entry(1) [OF e] .
    ultimately show ?thesis
      by (auto simp: collect_items_eq count_list_map_filter qualifies_def passes_filters_def)
  qed
  from a b show ?thesis by blast
qed

theorem analyze_pos_filters_witness:
  "analyze_pos example_doc ''ADV'' ''Adverb'' 2 True = [(''fast'', 1)] \<and>
   analyze_pos (filter (passes_filters ''ADV'' True) example_doc) ''ADV'' ''Adverb'' 2 True =
     [(''fast'', 1)] \<and>
   (\<exists>t\<in>set example_doc. lower (tok_lemma t) = ''fast'' \<and> tok_pos t = ''ADV'' \<and>
        is_alpha t \<and> \<not> (True \<and> is_stop t)) \<and>
   (1::int) = int (length (filter (\<lambda>t. qualifies ''ADV'' 2 True t \<and>
                                         lower (tok_lemma t) = ''fast'') example_doc))"
proof -
  have v: "analyze_pos example_doc ''ADV'' ''Adverb'' 2 True = [(''fast'', 1)]"
    by code_simp
  show ?thesis
    using analyze_pos_filters [of "''ADV''" True example_doc "''Adverb''" 2] v by simp
qed

section \<open>The concordance rows\<close>

text \<open>
  Claim C6, as amended. For every request the KWIC helper returns rows, at most as many
  as there are tokens matching the lemma (without case) and the tag; the rows are those
  of the earliest matches, in document order. When the row cap is not negative the
  number of rows is the smaller of the cap and the number of matches, so at most the
  cap.
\<close>

theorem kwic_row_bounds:
  "\<exists>rows. kwic doc lemma pos_tag window max_rows = Inr rows \<and>
     (0 \<le> max_rows \<longrightarrow>
        length rows = min (nat max_rows) (length (filter (is_hit lemma pos_tag) doc)) \<and>
        int (length rows) \<le> max_rows) \<and>
     length rows \<le> length (filter (is_hit lemma pos_tag) doc) \<and>
     rows = map (kwic_row_at doc window)
              (take (length rows)
                 (filter (\<lambda>i. is_hit lemma pos_tag (doc ! i)) [0..<length doc]))"
proof -
  let ?hs = "hits doc lemma pos_tag"
  let ?k = "slice_bound (length ?hs) max_rows"
  let ?rows = "map (kwic_row_at doc window) (take ?k ?hs)"
  have k: "?k \<le> length ?hs" by (auto simp: slice_bound_def)
  have "kwic doc lemma pos_tag window max_rows = Inr ?rows"
    by (simp add: kwic_rows py_slice_prefix)
  moreover have n: "length ?rows = ?k"
    using k by simp
  moreover have "length ?rows = min (nat max_rows) (length (filter (is_hit lemma pos_tag) doc))
                 \<and> int (length ?rows) \<le> max_rows" if "0 \<le> max_rows"
    using that by (simp add: slice_bound_def length_hits)
  moreover have "length ?rows \<le> length (filter (is_hit lemma pos_tag) doc)"
    using k by (simp add: length_hits)
  moreover have "?rows = map (kwic_row_at doc window)
                    (take (length ?rows)
                       (filter (\<lambda>i. is_hit lemma pos_tag (doc ! i)) [0..<length doc]))"
    by (simp only: n) (simp only: hits_eq)
  ultimately show ?thesis by blast
qed

theorem kwic_row_bounds_witness:
  "(0::int) \<le> 2 \<and>
   kwic (example_doc @ example_doc @ example_doc) ''RUN'' ''VERB'' 1 2 =
     Inr [\<lparr>Left = ''cat'', Keyword = ''runs'', Right = ''fast''\<rparr>,
          \<lparr>Left = ''cat'', Keyword = ''runs'', Right = ''fast''\<rparr>] \<and>
   length (filter (is_hit ''RUN'' ''VERB'') (example_doc @ example_doc @ example_doc)) = 3 \<and>
   int (length [\<lparr>Left = ''cat'', Keyword = ''runs'', Right = ''fast''\<rparr>,
          \<lparr>Left = ''cat'', Keyword = ''runs'', Right = ''fast''\<rparr>]) \<le> 2"
proof -
  let ?D = "example_doc @ example_doc @ example_doc"
  let ?R = "[\<lparr>Left = ''cat'', Keyword = ''runs'', Right = ''fast''\<rparr>,
          \<lparr>Left = ''cat'', Keyword = ''runs'', Right = ''fast''\<rparr>]"
  have v: "kwic ?D ''RUN'' ''VERB'' 1 2 = Inr ?R"
    by code_simp
  have n: "length (filter (is_hit ''RUN'' ''VERB'') ?D) = 3"
    by code_simp
  from kwic_row_bounds [of ?D "''RUN''" "''VERB''" 1 2]
  obtain rows where r: "kwic ?D ''RUN'' ''VERB'' 1 2 = Inr rows"
    and b: "(0::int) \<le> 2 \<longrightarrow> int (length rows) \<le> 2"
    by blast
  from r v have "rows = ?R" by simp
  with b have "int (length ?R) \<le> 2" by simp
  with v n show ?thesis by simp
qed

text \<open>
  Claim C6 as the specification states it, for any row cap, fails for a negative one:
  \<open>hits[:-1]\<close> is all hits but the last, so a cap of \<open>-1\<close> on three matches returns two
  rows.
\<close>

theorem kwic_negative_cap:
  "kwic (example_doc @ example_doc @ example_doc) ''run'' ''VERB'' 2 (- 1) =
     Inr [\<lparr>Left = ''The cat'', Keyword = ''runs'', Right = ''fast now''\<rparr>,
          \<lparr>Left = ''The cat'', Keyword = ''runs'', Right = ''fast now''\<rparr>] \<and>
   \<not> int (length [\<lparr>Left = ''The cat'', Keyword = ''runs'', Right = ''fast now''\<rparr>,
          \<lparr>Left = ''The cat'', Keyword = ''runs'', Right = ''fast now''\<rparr>]) \<le> - 1"
  by code_simp

text \<open>
  Claim C7, as amended. For every request with a window that is not negative, each
  match at position \<open>i\<close> of a document of \<open>n\<close> tokens has a left context of exactly
  \<open>min(window, i)\<close> tokens, those at the positions \<open>i - min(window, i)\<close> up to \<open>i - 1\<close>,
  and a right context of exactly \<open>min(window, n-1-i)\<close> tokens, those at the positions
  \<open>i + 1\<close> up to \<open>i + min(window, n-1-i)\<close>: the windows are clipped at both ends of the
  document and every position read lies inside it.
\<close>

theorem kwic_window_clipping:
  assumes "0 \<le> window"
  shows "kwic doc lemma pos_tag window max_rows =
           Inr (map (kwic_row_at doc window) (py_slice (hits doc lemma pos_tag) 0 max_rows)) \<and>
         (\<forall>i\<in>set (hits doc lemma pos_tag).
            i < length doc \<and>
            length (left_tokens doc window i) = min (nat window) i \<and>
            length (right_tokens doc window i) = min (nat window) (length doc - 1 - i) \<and>
            left_tokens doc window i = map ((!) doc) [i - min (nat window) i..<i] \<and>
            right_tokens doc window i =
              map ((!) doc) [i + 1..<i + 1 + min (nat window) (length doc - 1 - i)] \<and>
            i + 1 + min (nat window) (length doc - 1 - i) \<le> length doc)"
proof -
  have "i < length doc \<and>
            length (left_tokens doc window i) = min (nat window) i \<and>
            length (right_tokens doc window i) = min (nat window) (length doc - 1 - i) \<and>
            left_tokens doc window i = map ((!) doc) [i - min (nat window) i..<i] \<and>
            right_tokens doc window i =
              map ((!) doc) [i + 1..<i + 1 + min (nat window) (length doc - 1 - i)] \<and>
            i + 1 + min (nat window) (length doc - 1 - i) \<le> length doc"
    if "i \<in> set (hits doc lemma pos_tag)" for i
  proof -
    from that have r: "i < length doc" by (rule hits_in_range)
    have l: "left_tokens doc window i = map ((!) doc) [i - min (nat window) i..<i]"
      using r assms by (simp add: left_tokens_span left_bound_window)
    have rt: "right_tokens doc window i =
              map ((!) doc) [i + 1..<i + 1 + min (nat window) (length doc - 1 - i)]"
      using r assms by (simp add: right_tokens_span right_bound_window)
    have "length (left_tokens doc window i) = min (nat window) i"
      by (simp add: l)
    moreover have "length (right_tokens doc window i) = min (nat window) (length doc - 1 - i)"
    proof -
      have "length (right_tokens doc window i) =
            i + 1 + min (nat window) (length doc - 1 - i) - (i + 1)"
        by (simp only: rt length_map length_upt)
      then show ?thesis by simp
    qed
    moreover have "i + 1 + min (nat window) (length doc - 1 - i) \<le> length doc"
      using r by simp
    ultimately show ?thesis using r l rt by blast
  qed
  then show ?thesis using kwic_rows [of doc "lemma" pos_tag window max_rows] by blast
qed

theorem kwic_window_clipping_witness:
  "(0::int) \<le> 3 \<and>
   2 \<in> set (hits example_doc ''run'' ''VERB'') \<and>
   length (left_tokens example_doc 3 2) = 2 \<and>
   length (right_tokens example_doc 3 2) = 2 \<and>
   kwic example_doc ''run'' ''VERB'' 3 50 =
     Inr [\<lparr>Left = ''The cat'', Keyword = ''runs'', Right = ''fast now''\<rparr>]"
proof -
  have w: "(0::int) \<le> 3" by simp
  have h: "hits example_doc ''run'' ''VERB'' = [2]" by code_simp
  have n: "length example_doc = 5" by (simp add: example_doc_def)
  have v: "kwic example_doc ''run'' ''VERB'' 3 50 =
     Inr [\<lparr>Left = ''The cat'', Keyword = ''runs'', Right = ''fast now''\<rparr>]"
    by code_simp
  show ?thesis
    using kwic_window_clipping [OF w, of example_doc "''run''" "''VERB''" 50] h n v
    by simp
qed

text \<open>
  Claim C7 as the specification states it, for any window, fails for a negative one: the
  stop \<open>i+1+window\<close> of the right slice is then counted from the end of the document.
  With a window of \<open>-4\<close> the match at position 2 of the sample sentence has the right
  context \<open>fast\<close>, one token and not \<open>min(-4, 2)\<close>.
\<close>

theorem kwic_negative_window:
  "kwic example_doc ''run'' ''VERB'' (- 4) 50 =
     Inr [\<lparr>Left = [], Keyword = ''runs'', Right = ''fast''\<rparr>] \<and>
   right_tokens example_doc (- 4) 2 = [example_doc ! 3] \<and>
   int (length (right_tokens example_doc (- 4) 2)) \<noteq>
     min (- 4) (int (length example_doc) - 1 - 2)"
  by code_simp

text \<open>
  Claim C10. In every row the left context is made of the tokens at the contiguous
  positions \<open>a\<close> up to \<open>i - 1\<close>, for some \<open>a\<close>, and the right context of the tokens at
  the contiguous positions \<open>i + 1\<close> up to \<open>b - 1\<close>, for some \<open>b\<close> inside the document,
  each in source order; the position \<open>i\<close> of the keyword is in neither.
\<close>

theorem kwic_context_excludes_keyword:
  "kwic doc lemma pos_tag window max_rows =
     Inr (map (kwic_row_at doc window) (py_slice (hits doc lemma pos_tag) 0 max_rows)) \<and>
   (\<forall>i\<in>set (hits doc lemma pos_tag).
      \<exists>a b. a \<le> i \<and> b \<le> length doc \<and>
        left_tokens doc window i = map ((!) doc) [a..<i] \<and>
        right_tokens doc window i = map ((!) doc) [i + 1..<b] \<and>
        i \<notin> set [a..<i] \<and> i \<notin> set [i + 1..<b])"
proof -
  have "\<exists>a b. a \<le> i \<and> b \<le> length doc \<and>
        left_tokens doc window i = map ((!) doc) [a..<i] \<and>
        right_tokens doc window i = map ((!) doc) [i + 1..<b] \<and>
        i \<notin> set [a..<i] \<and> i \<notin> set [i + 1..<b]"
    if "i \<in> set (hits doc lemma pos_tag)" for i
  proof -
    from that have r: "i < length doc" by (rule hits_in_range)
    let ?a = "min i (slice_bound (length doc) (max 0 (int i - window)))"
    let ?b = "slice_bound (length doc) (int i + 1 + window)"
    have "[slice_bound (length doc) (max 0 (int i - window))..<i] = [?a..<i]"
      by (simp add: min_def)
    then have l: "left_tokens doc window i = map ((!) doc) [?a..<i]"
      using r by (simp only: left_tokens_span)
    have rt: "right_tokens doc window i = map ((!) doc) [i + 1..<?b]"
      using r by (simp add: right_tokens_span)
    have "?b \<le> length doc" by (auto simp: slice_bound_def)
    moreover have "?a \<le> i" by simp
    moreover have "i \<notin> set [?a..<i]" "i \<notin> set [i + 1..<?b]" by simp_all
    ultimately show ?thesis using l rt by blast
  qed
  then show ?thesis using kwic_rows [of doc "lemma" pos_tag window max_rows] by blast
qed

theorem kwic_context_excludes_keyword_witness:
  "2 \<in> set (hits example_doc ''run'' ''VERB'') \<and>
   (\<exists>a b. a \<le> 2 \<and> b \<le> length example_doc \<and>
        left_tokens example_doc 2 2 = map ((!) example_doc) [a..<2] \<and>
        right_tokens example_doc 2 2 = map ((!) example_doc) [2 + 1..<b] \<and>
        2 \<notin> set [a..<2] \<and> 2 \<notin> set [2 + 1..<b])"
proof -
  have h: "hits example_doc ''run'' ''VERB'' = [2]" by code_simp
  show ?thesis
    using kwic_context_excludes_keyword [of example_doc "''run''" "''VERB''" 2 50] h
    by simp
qed

section \<open>Errors\<close>

text \<open>
  Claim C9. On the empty document \<open>analyze_pos\<close> returns the empty table and the KWIC
  helper returns no row. Neither operation has an error condition: \<open>analyze_pos\<close> has
  no operation that can raise, and the one indexing of the KWIC helper is always in
  range, so that it returns rows for every document, lemma, tag, window and row cap.
\<close>

theorem no_error_condition:
  "analyze_pos [] pos_tag label min_len remove_stop = [] \<and>
   kwic [] lemma pos_tag window max_rows = Inr [] \<and>
   (\<exists>rows. kwic doc lemma pos_tag window max_rows = Inr rows)"
proof -
  have "analyze_pos [] pos_tag label min_len remove_stop = []"
    by (simp add: analyze_pos_def Counter_def most_common_def)
  moreover have "kwic [] lemma pos_tag window max_rows = Inr []"
    by (simp add: kwic_rows hits_eq py_slice_prefix)
  ultimately show ?thesis by (simp add: kwic_rows)
qed

section \<open>The process classifier\<close>

text \<open>
  Claim C8. The lookup \<open>sfl_map.get(lemma, "Material")\<close> returns the category the table
  stores for the lemma when the lemma is a key, and \<open>Material\<close> when it is not;
  \<open>know\<close> gives \<open>Mental\<close>, \<open>xyz123\<close> gives \<open>Material\<close>; every result is one of the six
  categories. The same holds of the classification of a token's lemma, with the
  lower-cased lemma as the key.
\<close>

theorem sfl_get_table:
  "((lemma, p) \<in> set sfl_map \<longrightarrow> sfl_get lemma = p) \<and>
   (lemma \<notin> fst ` set sfl_map \<longrightarrow> sfl_get lemma = ''Material'') \<and>
   sfl_get ''know'' = ''Mental'' \<and>
   sfl_get ''xyz123'' = ''Material'' \<and>
   sfl_get lemma \<in> set categories \<and>
   ((lower lemma, p) \<in> set sfl_map \<longrightarrow> classify lemma = p) \<and>
   (lower lemma \<notin> fst ` set sfl_map \<longrightarrow> classify lemma = ''Material'') \<and>
   classify ''know'' = ''Mental'' \<and>
   classify ''xyz123'' = ''Material'' \<and>
   classify lemma \<in> set categories"
proof -
  have "sfl_get ''know'' = ''Mental''" by code_simp
  moreover have "sfl_get ''xyz123'' = ''Material''" by code_simp
  moreover have "classify ''know'' = ''Mental''" by code_simp
  moreover have "classify ''xyz123'' = ''Material''" by code_simp
  ultimately show ?thesis
    using sfl_get_in_categories
    by (simp add: classify_def sfl_get_key sfl_get_absent)
qed

theorem sfl_get_table_witness:
  "(''be'', ''Relational'') \<in> set sfl_map \<and> sfl_get ''be'' = ''Relational'' \<and>
   ''run'' \<notin> fst ` set sfl_map \<and> sfl_get ''run'' = ''Material'' \<and>
   classify ''be'' = ''Relational'' \<and> classify ''run'' = ''Material''"
proof -
  have a: "(''be'', ''Relational'') \<in> set sfl_map" by code_simp
  have b: "''run'' \<notin> fst ` set sfl_map" by code_simp
  have c: "lower ''be'' = ''be''" by code_simp
  show ?thesis
    using sfl_get_table [of "''be''" "''Relational''"] sfl_get_table [of "''run''"] a b c
      lower_run
    by simp
qed

text \<open>
  Claim C3. The process given to a lemma does not depend on the case of the lemma: a
  string and its lower-cased form get the same category, one of the six, and
  \<open>analyze_text\<close> builds the same rows from a document and from the document with its
  lemmas lower-cased. Every row of \<open>analyze_text\<close> carries the lower-cased lemma of a
  token and the category of that lemma. The category is a function of the string alone
  (the table is never assigned to), so two calls on one string agree.
\<close>

theorem classify_case_insensitive:
  "classify (lower s) = classify s \<and>
   classify s \<in> set categories \<and>
   analyze_text_rows (map (\<lambda>t. t\<lparr>tok_lemma := lower (tok_lemma t)\<rparr>) doc) =
     analyze_text_rows doc \<and>
   list_all (\<lambda>r. \<exists>t\<in>set doc. Verb r = lower (tok_lemma t) \<and>
                    SFL_Process r = classify (tok_lemma t))
     (analyze_text_rows doc)"
proof -
  have a: "classify (lower s) = classify s"
    by (simp add: classify_def lower_idem)
  have b: "verbs (map (\<lambda>t. t\<lparr>tok_lemma := lower (tok_lemma t)\<rparr>) doc) = verbs doc"
    by (induction doc) (auto simp: verbs_def lower_idem)
  have c: "\<exists>t\<in>set doc. Verb r = lower (tok_lemma t) \<and> SFL_Process r = classify (tok_lemma t)"
    if "r \<in> set (analyze_text_rows doc)" for r
  proof -
    from that obtain l f where lf: "(l, f) \<in> set (Counter (map snd (verbs doc)))"
      and r: "r = \<lparr>Verb = l, Frequency = f, SFL_Process = sfl_get l\<rparr>"
      by (auto simp: analyze_text_rows_def)
    from lf have "l \<in> set (map snd (verbs doc))" by (rule Counter_entry)
    then obtain t where "t \<in> set doc" "l = lower (tok_lemma t)"
      by (auto simp: verbs_def)
    then show ?thesis using r by (auto simp: classify_def lower_idem)
  qed
  from a b c show ?thesis
    by (simp add: analyze_text_rows_def list_all_iff classify_def sfl_get_in_categories)
qed

end
